theory Spec2Isabelle
  imports Complex_Main "HOL-Library.Word"
begin

section \<open>The question-answering route (app/api/qa/route.ts)\<close>

text \<open>
  A shallow embedding of the route: the tokenizer and the answer composer over the
  vocabulary object, the padding of the token array and the two tensors built from it,
  the greedy decode loop over the logits, the model download with its callbacks, the
  session getter as a machine whose states are the suspension points of the source,
  and the POST handler that chains them.
\<close>

subsection \<open>Strings\<close>

text \<open>
  A JavaScript string is a sequence of UTF-16 code units. The character class of the
  tokenizer names code units above 255, so a code unit is a natural number here.
\<close>

type_synonym code_unit = nat
type_synonym jsstring = "code_unit list"

definition js :: "string \<Rightarrow> jsstring" where
  "js s = map of_char s"

text \<open>
  The class \<open>\s\<close> of a regular expression, which is also what \<open>trim\<close> strips:
  WhiteSpace and LineTerminator of the language definition.
\<close>

definition is_space :: "code_unit \<Rightarrow> bool" where
  "is_space c \<longleftrightarrow>
     c \<in> {9, 10, 11, 12, 13, 32, 160, 5760, 8232, 8233, 8239, 8287, 12288, 65279}
     \<or> (8192 \<le> c \<and> c \<le> 8202)"

text \<open>The class \<open>\w\<close> (no \<open>i\<close> or \<open>u\<close> flag): \<open>[A-Za-z0-9_]\<close>.\<close>

definition is_word_char :: "code_unit \<Rightarrow> bool" where
  "is_word_char c \<longleftrightarrow>
     (65 \<le> c \<and> c \<le> 90) \<or> (97 \<le> c \<and> c \<le> 122) \<or> (48 \<le> c \<and> c \<le> 57) \<or> c = 95"

text \<open>
  The fifteen letters listed in the class after \<open>\w\s\<close>, in the order of the source:
  a-acute, c-caron, d-caron, e-acute, e-caron, i-acute, n-caron, o-acute, r-caron,
  s-caron, t-caron, u-acute, u-ring, y-acute, z-caron (all lower case, precomposed).
\<close>

definition diacritics :: "code_unit list" where
  "diacritics = [225, 269, 271, 233, 283, 237, 328, 243, 345, 353, 357, 250, 367, 253, 382]"

text \<open>A code unit survives \<open>replace(/[^\w\s...]/g, '')\<close> when the negated class misses it.\<close>

definition kept :: "code_unit \<Rightarrow> bool" where
  "kept c \<longleftrightarrow> is_word_char c \<or> is_space c \<or> c \<in> set diacritics"

text \<open>
  \<open>split(/\s+/)\<close>: the pieces between the maximal runs of white space. A run at the
  start or at the end leaves an empty piece there, and the empty string splits into
  one empty piece. (\<open>r\<close> starts with white space when it is not empty, so the run is
  dropped from its tail.)
\<close>

function split_ws :: "jsstring \<Rightarrow> jsstring list" where
  "split_ws s =
     (let w = takeWhile (\<lambda>c. \<not> is_space c) s;
          r = dropWhile (\<lambda>c. \<not> is_space c) s
      in if r = [] then [w] else w # split_ws (dropWhile is_space (tl r)))"
  by pat_completeness auto
termination
proof (relation "measure length")
  show "wf (measure length)" by simp
next
  fix s w r :: jsstring
  assume r: "r = dropWhile (\<lambda>c. \<not> is_space c) s" and ne: "r \<noteq> []"
  have "length (dropWhile is_space (tl r)) \<le> length (tl r)"
    by (rule length_dropWhile_le)
  also have "\<dots> < length r" using ne by (cases r) simp_all
  also have "\<dots> \<le> length s" unfolding r by (rule length_dropWhile_le)
  finally show "(dropWhile is_space (tl r), s) \<in> measure length" by simp
qed

text \<open>\<open>Array.prototype.join(' ')\<close> on an array of strings.\<close>

fun join_sp :: "jsstring list \<Rightarrow> jsstring" where
  "join_sp [] = []"
| "join_sp [w] = w"
| "join_sp (w # v # ws) = w @ 32 # join_sp (v # ws)"

definition trim :: "jsstring \<Rightarrow> jsstring" where
  "trim s = rev (dropWhile is_space (rev (dropWhile is_space s)))"

text \<open>
  \<open>String.prototype.toLowerCase\<close> is a builtin over the whole of Unicode; the functions
  below take it as the argument \<open>lc\<close>. On Basic Latin and on the capitals of the fifteen
  letters above it works code unit by code unit as \<open>lower_unit\<close> does, and
  \<open>toLowerCase_basic\<close> stands for it on strings over these.
\<close>

definition lower_unit :: "code_unit \<Rightarrow> code_unit" where
  "lower_unit c =
     (if 65 \<le> c \<and> c \<le> 90 then c + 32
      else if c \<in> {193, 201, 205, 211, 218, 221} then c + 32
      else if c \<in> {268, 270, 282, 327, 344, 352, 356, 366, 381} then c + 1
      else c)"

definition toLowerCase_basic :: "jsstring \<Rightarrow> jsstring" where
  "toLowerCase_basic s = map lower_unit s"

subsection \<open>Errors\<close>

text \<open>
  Every place where the route can throw: a collaborator (the body parser, the
  vocabulary file, the network, the inference runtime) throws an error with a name and
  a message of its own; destructuring \<open>null\<close> throws; \<open>BigInt\<close> of an object throws.
\<close>

datatype js_error =
    Thrown (err_name: jsstring) (err_message: jsstring)
  | NullDestructured
  | NotBigInt

subsection \<open>Vocabulary and tokens\<close>

text \<open>
  \<open>getVocab()\<close> returns the object parsed from vocab.json. It is held as its own
  enumerable properties in the order of \<open>Object.entries\<close>; the values are the integer
  ids of the words.
\<close>

type_synonym vocab = "(jsstring \<times> int) list"

text \<open>
  What \<open>vocab[word] ?? 0\<close> can put into the token array: a number, or the object that
  the property read finds on \<open>Object.prototype\<close> when the word is no key of the
  vocabulary itself. After lower-casing and filtering, a word consists of
  \<open>[a-z0-9_]\<close> and the fifteen letters, so the inherited names it can hit are
  \<open>constructor\<close> and \<open>__proto__\<close>.
\<close>

datatype token = Num int | Inherited

definition inherited_names :: "jsstring list" where
  "inherited_names = [js ''constructor'', js ''__proto__'']"

definition vocab_get :: "vocab \<Rightarrow> jsstring \<Rightarrow> token" where
  "vocab_get v w =
     (case map_of v w of
        Some i \<Rightarrow> Num i
      | None \<Rightarrow> if w \<in> set inherited_names then Inherited else Num 0)"

definition tokenize :: "(jsstring \<Rightarrow> jsstring) \<Rightarrow> vocab \<Rightarrow> jsstring \<Rightarrow> token list" where
  "tokenize lc v text =
     (let words = filter (\<lambda>w. w \<noteq> []) (split_ws (filter kept (lc text)))
      in map (vocab_get v) words)"

text \<open>
  \<open>reverseVocab\<close> is filled by one pass over the entries, a later entry overwriting an
  earlier one with the same id. Its keys are the ids; no number reads an inherited
  property, and an object used as a key reads nothing.
\<close>

definition reverseVocab :: "vocab \<Rightarrow> int \<rightharpoonup> jsstring" where
  "reverseVocab v = fold (\<lambda>(word, i) m. m(i \<mapsto> word)) v Map.empty"

definition reverse_get :: "vocab \<Rightarrow> token \<Rightarrow> jsstring option" where
  "reverse_get v t = (case t of Num i \<Rightarrow> reverseVocab v i | Inherited \<Rightarrow> None)"

definition markers :: "jsstring list" where
  "markers = [js ''<unk>'', js ''<pad>'', js ''<s>'', js ''</s>'']"

definition detokenize :: "vocab \<Rightarrow> token list \<Rightarrow> jsstring" where
  "detokenize v tokenIds =
     trim (join_sp
       (map the
         (filter (\<lambda>w. case w of None \<Rightarrow> False | Some s \<Rightarrow> s \<noteq> [] \<and> s \<notin> set markers)
           (map (reverse_get v) tokenIds))))"

text \<open>
  A word that the tokenizer leaves as it is: not empty, and made of word characters and
  the fifteen letters only.
\<close>

definition plain_word :: "jsstring \<Rightarrow> bool" where
  "plain_word w \<longleftrightarrow> w \<noteq> [] \<and> (\<forall>c\<in>set w. is_word_char c \<or> c \<in> set diacritics)"

subsection \<open>Padding and the two tensors\<close>

definition maxLength :: nat where
  "maxLength = 512"

text \<open>The \<open>while\<close> loop that pushes the pad id until the array is long enough.\<close>

function pad_loop :: "nat \<Rightarrow> token list \<Rightarrow> token list" where
  "pad_loop n ts = (if length ts < n then pad_loop n (ts @ [Num 0]) else ts)"
  by pat_completeness auto
termination
  by (relation "measure (\<lambda>(n, ts). n - length ts)") auto

definition paddedTokens :: "nat \<Rightarrow> token list \<Rightarrow> token list" where
  "paddedTokens n inputTokens =
     (if length inputTokens > n then take n inputTokens else pad_loop n inputTokens)"

text \<open>
  \<open>BigInt(t)\<close> throws on a value that is no integer; \<open>BigInt64Array.from\<close> stores
  each big integer modulo \<open>2^64\<close>.
\<close>

fun to_bigints :: "token list \<Rightarrow> js_error + int list" where
  "to_bigints [] = Inr []"
| "to_bigints (Inherited # ts) = Inl NotBigInt"
| "to_bigints (Num i # ts) =
     (case to_bigints ts of Inl e \<Rightarrow> Inl e | Inr is \<Rightarrow> Inr (i # is))"

record tensor =
  data :: "64 word list"
  dims :: "nat list"

definition inputIds :: "nat \<Rightarrow> token list \<Rightarrow> js_error + tensor" where
  "inputIds n padded =
     (case to_bigints padded of
        Inl e \<Rightarrow> Inl e
      | Inr is \<Rightarrow> Inr \<lparr>data = map word_of_int is, dims = [1, n]\<rparr>)"

definition mask_values :: "token list \<Rightarrow> 64 word list" where
  "mask_values padded = map (\<lambda>t. if t = Num 0 then 0 else 1) padded"

definition attentionMask :: "nat \<Rightarrow> token list \<Rightarrow> tensor" where
  "attentionMask n padded = \<lparr>data = mask_values padded, dims = [1, n]\<rparr>"

subsection \<open>Greedy decoding\<close>

text \<open>
  An element of the \<open>Float32Array\<close> of logits. The decoder only compares elements with
  \<open>>\<close>, which is the order of the reals on the finite values, puts the two infinities
  at the ends and is false whenever one side is not a number. A read past the end of
  the array gives \<open>undefined\<close>, which compares as not a number.
\<close>

datatype f32 = NaN | NegInf | Fin real | PosInf

fun f32_gt :: "f32 \<Rightarrow> f32 \<Rightarrow> bool" where
  "f32_gt (Fin x) (Fin y) \<longleftrightarrow> x > y"
| "f32_gt (Fin x) NegInf \<longleftrightarrow> True"
| "f32_gt PosInf (Fin y) \<longleftrightarrow> True"
| "f32_gt PosInf NegInf \<longleftrightarrow> True"
| "f32_gt _ _ \<longleftrightarrow> False"

fun f32_ge :: "f32 \<Rightarrow> f32 \<Rightarrow> bool" where
  "f32_ge (Fin x) (Fin y) \<longleftrightarrow> x \<ge> y"
| "f32_ge NaN _ \<longleftrightarrow> False"
| "f32_ge _ NaN \<longleftrightarrow> False"
| "f32_ge _ NegInf \<longleftrightarrow> True"
| "f32_ge PosInf _ \<longleftrightarrow> True"
| "f32_ge _ _ \<longleftrightarrow> False"

definition logit :: "f32 list \<Rightarrow> nat \<Rightarrow> f32" where
  "logit logitsData k = (if k < length logitsData then logitsData ! k else NaN)"

text \<open>
  The inner \<open>for\<close> loop over the candidate ids \<open>t\<close>, from \<open>t\<close> up to \<open>n\<close>, carrying
  \<open>maxProb\<close> and \<open>maxToken\<close>.
\<close>

function scan :: "f32 list \<Rightarrow> nat \<Rightarrow> nat \<Rightarrow> nat \<Rightarrow> f32 \<times> nat \<Rightarrow> f32 \<times> nat" where
  "scan logitsData offset n t (maxProb, maxToken) =
     (if t < n then
        (let prob = logit logitsData (offset + t)
         in if f32_gt prob maxProb
            then scan logitsData offset n (Suc t) (prob, t)
            else scan logitsData offset n (Suc t) (maxProb, maxToken))
      else (maxProb, maxToken))"
  by pat_completeness auto
termination
  by (relation "measure (\<lambda>(d, offset, n, t, m). n - t)") auto

definition maxToken_at :: "f32 list \<Rightarrow> nat \<Rightarrow> nat \<Rightarrow> nat" where
  "maxToken_at logitsData vocabSize tokenPos =
     snd (scan logitsData (tokenPos * vocabSize) (min vocabSize 10000) 0 (NegInf, 0))"

text \<open>
  What holds of \<open>(maxProb, maxToken)\<close> before candidate \<open>t\<close> is read, the candidates
  being \<open>v 0\<close>, \<open>v 1\<close>, ...: no candidate read so far is greater than \<open>maxProb\<close>, and
  either nothing was stored yet or \<open>maxToken\<close> names the first candidate that reached
  \<open>maxProb\<close>.
\<close>

definition scanned :: "(nat \<Rightarrow> f32) \<Rightarrow> nat \<Rightarrow> f32 \<times> nat \<Rightarrow> bool" where
  "scanned v t m \<longleftrightarrow>
     (\<forall>j<t. \<not> f32_gt (v j) (fst m))
     \<and> (fst m = NegInf \<and> snd m = 0
        \<or> snd m < t \<and> fst m = v (snd m) \<and> (\<forall>j. j < snd m \<longrightarrow> \<not> f32_ge (v j) (fst m)))"

text \<open>The outer \<open>for\<close> loop, from \<open>i\<close> on, with the tokens pushed so far.\<close>

function decode_loop ::
  "f32 list \<Rightarrow> nat \<Rightarrow> nat \<Rightarrow> nat \<Rightarrow> nat \<Rightarrow> nat \<Rightarrow> nat list \<Rightarrow> nat list" where
  "decode_loop logitsData vocabSize maxLen maxNewTokens startIdx i outputTokens =
     (if i < maxNewTokens then
        (let tokenPos = startIdx + i
         in if tokenPos \<ge> maxLen then outputTokens
            else (let maxToken = maxToken_at logitsData vocabSize tokenPos
                  in if maxToken = 0 \<or> maxToken = 2 then outputTokens
                     else decode_loop logitsData vocabSize maxLen maxNewTokens startIdx
                            (Suc i) (outputTokens @ [maxToken])))
      else outputTokens)"
  by pat_completeness auto
termination
  by (relation "measure (\<lambda>(d, v, l, maxNewTokens, s, i, out). maxNewTokens - i)") auto

definition decode :: "f32 list \<Rightarrow> nat \<Rightarrow> nat \<Rightarrow> nat \<Rightarrow> nat \<Rightarrow> nat list" where
  "decode logitsData vocabSize maxLen maxNewTokens startIdx =
     decode_loop logitsData vocabSize maxLen maxNewTokens startIdx 0 []"

text \<open>A logits array of three positions over four ids, for the examples below.\<close>

definition sample_logits :: "f32 list" where
  "sample_logits =
     [Fin 1, Fin 5, Fin 0, Fin 5,
      Fin 0, Fin 2, Fin 2, Fin 9,
      Fin 0, Fin 0, Fin 7, Fin 1]"

definition maxNewTokens :: nat where
  "maxNewTokens = 100"

subsection \<open>The model download\<close>

text \<open>
  The file at \<open>MODEL_CACHE\<close> is absent or holds some bytes. A request either emits
  \<open>error\<close> or delivers a response, whose body is piped into the file until the file
  emits \<open>finish\<close>. The second request is sent only to the \<open>Location\<close> of a 301 or 302.
\<close>

type_synonym bytes = "8 word list"

datatype 'a arrival = Fails js_error | Arrives 'a

record http_response =
  statusCode :: nat
  content :: bytes

record network =
  first_request :: "http_response arrival"
  redirect_request :: "http_response arrival"

record download =
  outcome :: "js_error + unit"
  cache_after :: "bytes option"
  requests :: nat

text \<open>
  What runs before \<open>downloadModel\<close> hands its promise back: the test for the cached
  file, or else the write stream (which creates the file, empty) and the first request.
  \<open>None\<close> means that the promise is still pending.
\<close>

definition download_begin :: "bytes option \<Rightarrow> (js_error + unit) option \<times> bytes option \<times> nat" where
  "download_begin cache =
     (if cache \<noteq> None then (Some (Inr ()), cache, 0) else (None, Some [], 1))"

text \<open>
  The callbacks of the pending download. Only the \<open>error\<close> handler of the first
  request unlinks the file; the one of the second request is \<open>reject\<close> itself.
\<close>

definition download_settle :: "network \<Rightarrow> (js_error + unit) \<times> bytes option \<times> nat" where
  "download_settle net =
     (case first_request net of
        Fails err \<Rightarrow> (Inl err, None, 0)
      | Arrives response \<Rightarrow>
          if statusCode response = 302 \<or> statusCode response = 301 then
            (case redirect_request net of
               Fails err \<Rightarrow> (Inl err, Some [], 1)
             | Arrives redirectResponse \<Rightarrow> (Inr (), Some (content redirectResponse), 1))
          else (Inr (), Some (content response), 0))"

definition downloadModel :: "network \<Rightarrow> bytes option \<Rightarrow> download" where
  "downloadModel net cache =
     (case download_begin cache of
        (Some r, c, n) \<Rightarrow> \<lparr>outcome = r, cache_after = c, requests = n\<rparr>
      | (None, c, n) \<Rightarrow>
          (case download_settle net of
             (r, c', n') \<Rightarrow> \<lparr>outcome = r, cache_after = c', requests = n + n'\<rparr>))"

text \<open>
  A network for the examples below: the release URL answers 302, and the location it
  names delivers three bytes.
\<close>

definition sample_network :: network where
  "sample_network =
     \<lparr>first_request = Arrives \<lparr>statusCode = 302, content = []\<rparr>,
      redirect_request = Arrives \<lparr>statusCode = 200, content = [1, 2, 3]\<rparr>\<rparr>"

subsection \<open>The session getter\<close>

text \<open>
  \<open>getSession\<close> is an \<open>async\<close> function: a call runs without interruption up to its
  next \<open>await\<close>, where it is suspended until the awaited promise is settled and its
  continuation is run. Between two such runs the continuations of other calls run, and
  they share the module variables \<open>session\<close> and \<open>modelLoading\<close>. A state of the
  process holds these two variables, the promises returned by \<open>downloadModel\<close>, the
  promises returned by \<open>InferenceSession.create\<close> (the instance under construction
  is named by the index of its promise), the cache file, the count of requests sent,
  and where each call of \<open>getSession\<close> stands.
\<close>

datatype settled = Pending | Fulfilled | Rejected js_error

text \<open>
  Where a call stands: not yet made; suspended at \<open>await modelLoading\<close> inside the
  \<open>if (modelLoading)\<close> (on a download another call began); suspended at the
  \<open>await modelLoading\<close> after its own \<open>downloadModel()\<close>; suspended at
  \<open>await ort.InferenceSession.create(...)\<close>; returned an instance; thrown.
\<close>

datatype call =
    NotStarted
  | AwaitOthers nat
  | AwaitOwn nat
  | AwaitCreate nat
  | Returned nat
  | Threw js_error

record process =
  session :: "nat option"
  modelLoading :: "nat option"
  downloads :: "settled list"
  creations :: "settled list"
  cache :: "bytes option"
  sent :: nat
  calls :: "call list"

definition settled_of :: "(js_error + unit) option \<Rightarrow> settled" where
  "settled_of r = (case r of None \<Rightarrow> Pending | Some (Inl e) \<Rightarrow> Rejected e | Some (Inr u) \<Rightarrow> Fulfilled)"

text \<open>
  \<open>modelLoading = downloadModel(); await modelLoading;\<close> for call \<open>k\<close>: the download
  begins, its promise is stored, the call is suspended on it.
\<close>

definition start_loading :: "nat \<Rightarrow> process \<Rightarrow> process" where
  "start_loading k p =
     (case download_begin (cache p) of
        (r, c, n) \<Rightarrow>
          p\<lparr>modelLoading := Some (length (downloads p)),
            downloads := downloads p @ [settled_of r],
            cache := c,
            sent := sent p + n,
            calls := (calls p)[k := AwaitOwn (length (downloads p))]\<rparr>)"

text \<open>
  The events of a run. \<open>Call k\<close>: call \<open>k\<close> enters \<open>getSession\<close>. \<open>Network d net\<close>: the
  pending download \<open>d\<close> meets the network \<open>net\<close> and its promise is settled.
  \<open>Created c r\<close>: the construction \<open>c\<close> ends, with an error or with the instance.
  \<open>Resume k\<close>: the continuation of the suspended call \<open>k\<close> runs; it is enabled once the
  promise it awaits is settled.
\<close>

datatype event =
    Call nat
  | Network nat network
  | Created nat "js_error option"
  | Resume nat

definition resume :: "nat \<Rightarrow> process \<Rightarrow> process option" where
  "resume k p =
     (case calls p ! k of
        AwaitOthers d \<Rightarrow>
          (case downloads p ! d of
             Pending \<Rightarrow> None
           | Rejected e \<Rightarrow> Some (p\<lparr>calls := (calls p)[k := Threw e]\<rparr>)
           | Fulfilled \<Rightarrow>
               (case session p of
                  Some s \<Rightarrow> Some (p\<lparr>calls := (calls p)[k := Returned s]\<rparr>)
                | None \<Rightarrow> Some (start_loading k p)))
      | AwaitOwn d \<Rightarrow>
          (case downloads p ! d of
             Pending \<Rightarrow> None
           | Rejected e \<Rightarrow> Some (p\<lparr>calls := (calls p)[k := Threw e]\<rparr>)
           | Fulfilled \<Rightarrow>
               Some (p\<lparr>modelLoading := None,
                       creations := creations p @ [Pending],
                       calls := (calls p)[k := AwaitCreate (length (creations p))]\<rparr>))
      | AwaitCreate c \<Rightarrow>
          (case creations p ! c of
             Pending \<Rightarrow> None
           | Rejected e \<Rightarrow> Some (p\<lparr>calls := (calls p)[k := Threw e]\<rparr>)
           | Fulfilled \<Rightarrow> Some (p\<lparr>session := Some c, calls := (calls p)[k := Returned c]\<rparr>))
      | _ \<Rightarrow> None)"

definition step :: "event \<Rightarrow> process \<Rightarrow> process option" where
  "step ev p =
     (case ev of
        Call k \<Rightarrow>
          if k < length (calls p) \<and> calls p ! k = NotStarted then
            (case session p of
               Some s \<Rightarrow> Some (p\<lparr>calls := (calls p)[k := Returned s]\<rparr>)
             | None \<Rightarrow>
                 (case modelLoading p of
                    Some d \<Rightarrow> Some (p\<lparr>calls := (calls p)[k := AwaitOthers d]\<rparr>)
                  | None \<Rightarrow> Some (start_loading k p)))
          else None
      | Network d net \<Rightarrow>
          if d < length (downloads p) \<and> downloads p ! d = Pending then
            (case download_settle net of
               (r, c, n) \<Rightarrow>
                 Some (p\<lparr>downloads := (downloads p)[d := settled_of (Some r)],
                         cache := c,
                         sent := sent p + n\<rparr>))
          else None
      | Created c r \<Rightarrow>
          if c < length (creations p) \<and> creations p ! c = Pending then
            Some (p\<lparr>creations :=
                      (creations p)[c := (case r of None \<Rightarrow> Fulfilled | Some e \<Rightarrow> Rejected e)]\<rparr>)
          else None
      | Resume k \<Rightarrow> if k < length (calls p) then resume k p else None)"

fun run :: "event list \<Rightarrow> process \<Rightarrow> process option" where
  "run [] p = Some p"
| "run (ev # evs) p = (case step ev p of None \<Rightarrow> None | Some p' \<Rightarrow> run evs p')"

text \<open>A fresh process in which \<open>n\<close> calls of \<open>getSession\<close> are about to be made.\<close>

definition fresh :: "nat \<Rightarrow> process" where
  "fresh n =
     \<lparr>session = None, modelLoading = None, downloads = [], creations = [],
      cache = None, sent = 0, calls = replicate n NotStarted\<rparr>"

subsection \<open>The POST handler\<close>

datatype json =
    JNull
  | JBool bool
  | JNumber real
  | JString jsstring
  | JArray "json list"
  | JObject "(jsstring \<times> json) list"

text \<open>
  \<open>const { question } = await req.json()\<close>: destructuring \<open>null\<close> throws; any other
  value is read for the property, which only an object can own (the last of the members
  with that name, as \<open>JSON.parse\<close> keeps it). \<open>None\<close> is \<open>undefined\<close>.
\<close>

definition question_of :: "json \<Rightarrow> js_error + json option" where
  "question_of j =
     (case j of
        JNull \<Rightarrow> Inl NullDestructured
      | JObject members \<Rightarrow> Inr (map_of (rev members) (js ''question''))
      | _ \<Rightarrow> Inr None)"

text \<open>\<open>!question\<close>.\<close>

definition falsy :: "json option \<Rightarrow> bool" where
  "falsy q =
     (case q of
        None \<Rightarrow> True
      | Some JNull \<Rightarrow> True
      | Some (JBool b) \<Rightarrow> \<not> b
      | Some (JNumber x) \<Rightarrow> x = 0
      | Some (JString s) \<Rightarrow> s = []
      | Some _ \<Rightarrow> False)"

text \<open>\<open>typeof question !== 'string'\<close>.\<close>

definition not_string :: "json option \<Rightarrow> bool" where
  "not_string q = (case q of Some (JString s) \<Rightarrow> False | _ \<Rightarrow> True)"

definition string_of :: "json option \<Rightarrow> jsstring" where
  "string_of q = (case q of Some (JString s) \<Rightarrow> s | _ \<Rightarrow> [])"

record metadata =
  input_tokens :: nat
  output_tokens :: nat
  inference_time_ms :: int
  total_time_ms :: int

datatype payload =
    ErrorOnly jsstring
  | Failure js_error
  | Answer jsstring jsstring metadata

datatype response = Response (status: nat) (payload: payload)

text \<open>
  What the handler takes from outside: the outcome of \<open>req.json()\<close>, of
  \<open>getSession()\<close> and of \<open>getVocab()\<close> (the object is cached by its first read, so
  the reads within one request agree), the forward pass \<open>model.run\<close> down to
  \<open>results.logits.data\<close>, \<open>toLowerCase\<close>, and the four readings of \<open>Date.now()\<close>.
\<close>

record env =
  body :: "js_error + json"
  acquired :: "js_error + unit"
  vocabulary :: "js_error + vocab"
  forward :: "tensor \<Rightarrow> tensor \<Rightarrow> js_error + f32 list"
  toLowerCase :: "jsstring \<Rightarrow> jsstring"
  startTime :: int
  inferenceStart :: int
  inferenceEnd :: int
  endTime :: int

definition required_message :: jsstring where
  "required_message = js ''Parametr '' @ [34] @ js ''question'' @ [34] @ js '' je povinn'' @ [253]"

definition no_answer :: jsstring where
  "no_answer = js ''Model negeneroval odpov'' @ [283, 271]"

definition prompt :: "jsstring \<Rightarrow> jsstring" where
  "prompt question =
     js ''Ot'' @ [225] @ js ''zka: '' @ question @ [10] @ js ''Odpov'' @ [283, 271] @ js '':''"

text \<open>The handler from \<open>await getSession()\<close> on, for a question that passed the check.\<close>

definition infer :: "env \<Rightarrow> jsstring \<Rightarrow> response" where
  "infer e question =
     (case acquired e of
        Inl err \<Rightarrow> Response 500 (Failure err)
      | Inr model \<Rightarrow>
     (case vocabulary e of
        Inl err \<Rightarrow> Response 500 (Failure err)
      | Inr v \<Rightarrow>
     (let inputTokens = tokenize (toLowerCase e) v (prompt question);
          padded = paddedTokens maxLength inputTokens
      in case inputIds maxLength padded of
           Inl err \<Rightarrow> Response 500 (Failure err)
         | Inr ids \<Rightarrow>
     (case forward e ids (attentionMask maxLength padded) of
        Inl err \<Rightarrow> Response 500 (Failure err)
      | Inr logitsData \<Rightarrow>
     (let vocabSize = length v;
          startIdx = length inputTokens;
          outputTokens = decode logitsData vocabSize maxLength maxNewTokens startIdx;
          answer = detokenize v (map (\<lambda>t. Num (int t)) outputTokens)
      in Response 200
           (Answer question (if answer = [] then no_answer else answer)
              \<lparr>input_tokens = length inputTokens,
               output_tokens = length outputTokens,
               inference_time_ms = inferenceEnd e - inferenceStart e,
               total_time_ms = endTime e - startTime e\<rparr>))))))"

definition POST :: "env \<Rightarrow> response" where
  "POST e =
     (case body e of
        Inl err \<Rightarrow> Response 500 (Failure err)
      | Inr j \<Rightarrow>
          (case question_of j of
             Inl err \<Rightarrow> Response 500 (Failure err)
           | Inr question \<Rightarrow>
               if falsy question \<or> not_string question
               then Response 400 (ErrorOnly required_message)
               else infer e (string_of question)))"

text \<open>
  An environment for the examples below: a vocabulary of three words, a session that
  is ready, a forward pass that returns the sample logits, and lower-casing as on Basic
  Latin. Its request carries the question \<open>a a ... a\<close> of 510 words.
\<close>

definition sample_vocab :: vocab where
  "sample_vocab = [(js ''a'', 5), (js ''b'', 6), (js ''e-mail'', 7)]"

definition long_question :: jsstring where
  "long_question = concat (replicate 510 (js ''a ''))"

definition sample_env :: env where
  "sample_env =
     \<lparr>body = Inr (JObject [(js ''question'', JString long_question)]),
      acquired = Inr (),
      vocabulary = Inr sample_vocab,
      forward = (\<lambda>ids mask. Inr sample_logits),
      toLowerCase = toLowerCase_basic,
      startTime = 1000, inferenceStart = 1200, inferenceEnd = 1900, endTime = 2000\<rparr>"



section \<open>Properties\<close>

text \<open>
  The equations of the loops are unfolded by hand, one turn at a time.
\<close>

declare split_ws.simps [simp del] pad_loop.simps [simp del] scan.simps [simp del]
  decode_loop.simps [simp del]

subsection \<open>Padding and the attention mask\<close>

lemma pad_loop_replicate: "pad_loop n ts = ts @ replicate (n - length ts) (Num 0)"
proof (induction n ts rule: pad_loop.induct)
  case (1 n ts)
  show ?case
  proof (cases "length ts < n")
    case True
    then have "n - length ts = Suc (n - Suc (length ts))" by simp
    with True "1" show ?thesis
      by (subst pad_loop.simps) (simp add: replicate_app_Cons_same)
  next
    case False
    then show ?thesis by (subst pad_loop.simps) simp
  qed
qed

lemma paddedTokens_eq:
  "paddedTokens n ts = take n ts @ replicate (n - length ts) (Num 0)"
  by (simp add: paddedTokens_def pad_loop_replicate)

lemma length_paddedTokens: "length (paddedTokens n ts) = n"
  by (simp add: paddedTokens_eq)

lemma nth_paddedTokens:
  "i < n \<Longrightarrow> paddedTokens n ts ! i = (if i < length ts then ts ! i else Num 0)"
  by (simp add: paddedTokens_eq nth_append)

text \<open>
  C7. For every input token array, the empty one and those longer than \<open>maxLength\<close>
  included, the padded token array and the attention mask built from it both have
  length \<open>maxLength\<close>, which is 512.
\<close>

theorem both_lengths_maxLength:
  "length (paddedTokens maxLength inputTokens) = 512
   \<and> length (data (attentionMask maxLength (paddedTokens maxLength inputTokens))) = 512
   \<and> dims (attentionMask maxLength (paddedTokens maxLength inputTokens)) = [1, 512]"
  by (simp add: length_paddedTokens attentionMask_def mask_values_def maxLength_def)

text \<open>
  C2, as the code has it. At every position \<open>i\<close> below \<open>maxLength\<close> the mask is 0 exactly
  when the padded token there is 0: that is, when \<open>i\<close> is at or beyond the length of the
  input, or when the input token at \<open>i\<close> is itself 0 (the id the tokenizer gives to an
  unknown word). The mask is computed from the value of the token, not from the
  position.
\<close>

theorem mask_zero_iff_token_zero:
  assumes "i < maxLength"
  shows "(data (attentionMask maxLength (paddedTokens maxLength inputTokens)) ! i = 0
            \<longleftrightarrow> paddedTokens maxLength inputTokens ! i = Num 0)
         \<and> (data (attentionMask maxLength (paddedTokens maxLength inputTokens)) ! i = 0
            \<longleftrightarrow> length inputTokens \<le> i \<or> inputTokens ! i = Num 0)"
  using assms
  by (auto simp add: attentionMask_def mask_values_def length_paddedTokens nth_paddedTokens)

theorem mask_zero_iff_token_zero_witness:
  "(3::nat) < maxLength
   \<and> data (attentionMask maxLength (paddedTokens maxLength [Num 7, Num 0, Inherited])) ! 1 = 0
   \<and> data (attentionMask maxLength (paddedTokens maxLength [Num 7, Num 0, Inherited])) ! 3 = 0
   \<and> data (attentionMask maxLength (paddedTokens maxLength [Num 7, Num 0, Inherited])) ! 0 \<noteq> 0
   \<and> data (attentionMask maxLength (paddedTokens maxLength [Num 7, Num 0, Inherited])) ! 2 \<noteq> 0"
  using mask_zero_iff_token_zero [of 0 "[Num 7, Num 0, Inherited]"]
    mask_zero_iff_token_zero [of 1 "[Num 7, Num 0, Inherited]"]
    mask_zero_iff_token_zero [of 2 "[Num 7, Num 0, Inherited]"]
    mask_zero_iff_token_zero [of 3 "[Num 7, Num 0, Inherited]"]
  by (simp add: maxLength_def nth_paddedTokens)

text \<open>
  C2 as stated fails where an input token is 0: for the one-token input \<open>[0]\<close> the mask
  at position 0 is 0 and the token there equals the pad id, yet position 0 is inside
  the input.
\<close>

theorem mask_zero_inside_input:
  "data (attentionMask maxLength (paddedTokens maxLength [Num 0])) ! 0 = 0
   \<and> paddedTokens maxLength [Num 0] ! 0 = Num 0
   \<and> \<not> length [Num 0] \<le> (0::nat)"
  by (simp add: attentionMask_def mask_values_def length_paddedTokens nth_paddedTokens
      maxLength_def)

subsection \<open>Greedy decoding\<close>

lemma f32_gt_irrefl: "\<not> f32_gt x x"
  by (cases x) simp_all

lemma f32_gt_trans: "f32_gt x y \<Longrightarrow> f32_gt y z \<Longrightarrow> f32_gt x z"
  by (cases x; cases y; cases z) simp_all

lemma f32_ge_gt_trans: "f32_ge x y \<Longrightarrow> f32_gt y z \<Longrightarrow> f32_gt x z"
  by (cases x; cases y; cases z) simp_all

lemma f32_gt_NegInf: "\<not> f32_gt x NegInf \<Longrightarrow> \<not> f32_gt x y"
  by (cases x; cases y) simp_all

lemma scanned_step_update:
  assumes "scanned v t (mp, mt)" and "f32_gt (v t) mp"
  shows "scanned v (Suc t) (v t, t)"
proof -
  have a: "\<not> f32_gt (v j) (v t)" if "j < Suc t" for j
  proof (cases "j = t")
    case True
    then show ?thesis by (simp add: f32_gt_irrefl)
  next
    case False
    with that have "j < t" by simp
    with assms(1) have "\<not> f32_gt (v j) mp" by (simp add: scanned_def)
    with assms(2) show ?thesis using f32_gt_trans by blast
  qed
  have b: "\<not> f32_ge (v j) (v t)" if "j < t" for j
  proof -
    from that assms(1) have "\<not> f32_gt (v j) mp" by (simp add: scanned_def)
    with assms(2) show ?thesis using f32_ge_gt_trans by blast
  qed
  from a b show ?thesis by (simp add: scanned_def)
qed

lemma scanned_step_keep:
  assumes "scanned v t (mp, mt)" and "\<not> f32_gt (v t) mp"
  shows "scanned v (Suc t) (mp, mt)"
  using assms by (auto simp add: scanned_def less_Suc_eq)

lemma scan_scanned:
  assumes "scanned (\<lambda>j. logit d (off + j)) t m" and "t \<le> n"
  shows "scanned (\<lambda>j. logit d (off + j)) n (scan d off n t m)"
  using assms
proof (induction d off n t m rule: scan.induct)
  case (1 d off n t mp mt)
  show ?case
  proof (cases "t < n")
    case False
    with "1.prems" show ?thesis by (subst scan.simps) simp
  next
    case True
    show ?thesis
    proof (cases "f32_gt (logit d (off + t)) mp")
      case gt: True
      have "scanned (\<lambda>j. logit d (off + j)) (Suc t) (logit d (off + t), t)"
        using scanned_step_update [OF "1.prems"(1)] gt by simp
      with "1.IH"(1) [OF True refl gt] True gt show ?thesis
        by (subst scan.simps) simp
    next
      case ngt: False
      have "scanned (\<lambda>j. logit d (off + j)) (Suc t) (mp, mt)"
        using scanned_step_keep [OF "1.prems"(1)] ngt by simp
      with "1.IH"(2) [OF True refl ngt] True ngt show ?thesis
        by (subst scan.simps) simp
    qed
  qed
qed

lemma scan_next:
  "t < n \<Longrightarrow> scan d off n t (mp, mt) =
     (if f32_gt (logit d (off + t)) mp
      then scan d off n (Suc t) (logit d (off + t), t)
      else scan d off n (Suc t) (mp, mt))"
  by (subst scan.simps) (simp add: Let_def)

lemma scan_done: "\<not> t < n \<Longrightarrow> scan d off n t (mp, mt) = (mp, mt)"
  by (subst scan.simps) simp

lemma decode_loop_done:
  "\<not> i < N \<or> L \<le> s + i \<or> maxToken_at d V (s + i) = 0 \<or> maxToken_at d V (s + i) = 2
   \<Longrightarrow> decode_loop d V L N s i out = out"
  by (subst decode_loop.simps) (auto simp add: Let_def)

lemma decode_loop_next:
  "i < N \<Longrightarrow> s + i < L \<Longrightarrow> maxToken_at d V (s + i) \<noteq> 0 \<Longrightarrow> maxToken_at d V (s + i) \<noteq> 2
   \<Longrightarrow> decode_loop d V L N s i out =
       decode_loop d V L N s (Suc i) (out @ [maxToken_at d V (s + i)])"
  by (subst decode_loop.simps) (simp add: Let_def)


lemma maxToken_at_scanned:
  "scanned (\<lambda>j. logit d (pos * V + j)) (min V 10000)
     (scan d (pos * V) (min V 10000) 0 (NegInf, 0))"
  by (rule scan_scanned) (simp_all add: scanned_def)

lemma maxToken_at_props:
  fixes d V pos
  defines "n \<equiv> min V 10000"
  defines "m \<equiv> maxToken_at d V pos"
  defines "v \<equiv> \<lambda>j. logit d (pos * V + j)"
  shows "m = 0 \<or> m < n"
    and "\<forall>t<n. \<not> f32_gt (v t) (v m)"
    and "\<forall>t<m. \<not> f32_ge (v t) (v m)"
proof -
  let ?r = "scan d (pos * V) (min V 10000) 0 (NegInf, 0)"
  have s: "scanned v n ?r" unfolding v_def n_def by (rule maxToken_at_scanned)
  have m: "m = snd ?r" by (simp add: m_def maxToken_at_def)
  from s m show "m = 0 \<or> m < n" by (auto simp add: scanned_def)
  show "\<forall>t<n. \<not> f32_gt (v t) (v m)"
  proof (intro allI impI)
    fix t assume t: "t < n"
    from s t have le: "\<not> f32_gt (v t) (fst ?r)" by (simp add: scanned_def)
    from s consider "fst ?r = NegInf" | "fst ?r = v m" using m by (auto simp add: scanned_def)
    then show "\<not> f32_gt (v t) (v m)"
    proof cases
      case 1
      with le show ?thesis by (simp add: f32_gt_NegInf)
    next
      case 2
      with le show ?thesis by simp
    qed
  qed
  show "\<forall>t<m. \<not> f32_ge (v t) (v m)"
    using s m by (auto simp add: scanned_def)
qed


lemma decode_loop_length:
  "length (decode_loop d V L N s i out) \<le> length out + min (N - i) (L - (s + i))"
proof (induction d V L N s i out rule: decode_loop.induct)
  case (1 d V L N s i out)
  show ?case
  proof (cases "i < N \<and> s + i < L \<and> maxToken_at d V (s + i) \<noteq> 0 \<and> maxToken_at d V (s + i) \<noteq> 2")
    case True
    then have "length (decode_loop d V L N s (Suc i) (out @ [maxToken_at d V (s + i)]))
        \<le> length (out @ [maxToken_at d V (s + i)]) + min (N - Suc i) (L - (s + Suc i))"
      using "1.IH" by simp
    moreover have "Suc (min (N - Suc i) (L - (s + Suc i))) = min (N - i) (L - (s + i))"
      using True by auto
    ultimately have "length (decode_loop d V L N s (Suc i) (out @ [maxToken_at d V (s + i)]))
        \<le> length out + min (N - i) (L - (s + i))" by simp
    with True show ?thesis by (simp add: decode_loop_next)
  next
    case False
    then have "decode_loop d V L N s i out = out" by (intro decode_loop_done) auto
    then show ?thesis by simp
  qed
qed

lemma decode_length: "length (decode d V L N s) \<le> min N (L - s)"
  using decode_loop_length [of d V L N s 0 "[]"] by (simp add: decode_def)

lemma decode_past_end: "L \<le> s \<Longrightarrow> decode d V L N s = []"
  using decode_length [of d V L N s] by simp

lemma decode_stop_first:
  "maxToken_at d V s = 0 \<or> maxToken_at d V s = 2 \<Longrightarrow> decode d V L N s = []"
  unfolding decode_def by (rule decode_loop_done) simp

lemma maxToken_at_strict_max:
  assumes "k < min V 10000"
    and "\<forall>t<min V 10000. t \<noteq> k \<longrightarrow> f32_gt (logit d (pos * V + k)) (logit d (pos * V + t))"
  shows "maxToken_at d V pos = k"
proof (rule ccontr)
  assume ne: "maxToken_at d V pos \<noteq> k"
  from assms(1) have "0 < V" by simp
  then have "maxToken_at d V pos < min V 10000"
    using maxToken_at_props(1) [where d = d and V = V and pos = pos] by auto
  with assms(2) ne
  have "f32_gt (logit d (pos * V + k)) (logit d (pos * V + maxToken_at d V pos))" by blast
  moreover have "\<not> f32_gt (logit d (pos * V + k)) (logit d (pos * V + maxToken_at d V pos))"
    using maxToken_at_props(2) [where d = d and V = V and pos = pos] assms(1) by blast
  ultimately show False by blast
qed

text \<open>
  C5. At every position the decoder selects an id below 10000, and below
  \<open>min(vocabSize, 10000)\<close> when the vocabulary is not empty; no candidate id in that
  range has a logit greater than the selected one, and no lower id has a logit that
  reaches it (so among equal maxima the lowest id is selected). The comparisons are
  those of the source: a logit that is not a number is neither greater than nor equal
  to anything.
\<close>

theorem argmax_lowest_below_cap:
  "maxToken_at d V pos < 10000
   \<and> (0 < V \<longrightarrow> maxToken_at d V pos < min V 10000)
   \<and> (\<forall>t<min V 10000.
         \<not> f32_gt (logit d (pos * V + t)) (logit d (pos * V + maxToken_at d V pos)))
   \<and> (\<forall>t<maxToken_at d V pos.
         \<not> f32_ge (logit d (pos * V + t)) (logit d (pos * V + maxToken_at d V pos)))"
  using maxToken_at_props [where d = d and V = V and pos = pos] by auto

theorem argmax_lowest_below_cap_witness:
  "(0::nat) < 4
   \<and> maxToken_at [Fin 1, Fin 5, NaN, Fin 5, Fin 0, Fin 2, Fin 2, Fin 9] 4 0 = 1
   \<and> maxToken_at [Fin 1, Fin 5, NaN, Fin 5, Fin 0, Fin 2, Fin 2, Fin 9] 4 0 < min 4 10000
   \<and> \<not> f32_gt (logit [Fin 1, Fin 5, NaN, Fin 5, Fin 0, Fin 2, Fin 2, Fin 9] (0 * 4 + 3))
          (logit [Fin 1, Fin 5, NaN, Fin 5, Fin 0, Fin 2, Fin 2, Fin 9]
             (0 * 4 + maxToken_at [Fin 1, Fin 5, NaN, Fin 5, Fin 0, Fin 2, Fin 2, Fin 9] 4 0))"
  using argmax_lowest_below_cap [of "[Fin 1, Fin 5, NaN, Fin 5, Fin 0, Fin 2, Fin 2, Fin 9]" 4 0]
  by (simp add: maxToken_at_def scan_next scan_done logit_def)


text \<open>
  C6, as the code has it. The decode loop is a total function, and its output has at
  most \<open>min(maxNewTokens, max(0, maxLength - startPosition))\<close> tokens: it is empty when
  the start position is at or beyond \<open>maxLength\<close>. It is empty as well when the id
  selected at the start position is 0 or 2, in particular when the logit of one of these
  ids is strictly the greatest among the candidates there.
\<close>

theorem decode_length_bounded:
  "int (length (decode d V L N s)) \<le> min (int N) (max 0 (int L - int s))
   \<and> (L \<le> s \<longrightarrow> decode d V L N s = [])
   \<and> (maxToken_at d V s = 0 \<or> maxToken_at d V s = 2 \<longrightarrow> decode d V L N s = [])
   \<and> ((k = 0 \<or> k = 2) \<and> k < min V 10000
        \<and> (\<forall>t<min V 10000. t \<noteq> k \<longrightarrow> f32_gt (logit d (s * V + k)) (logit d (s * V + t)))
       \<longrightarrow> decode d V L N s = [])"
proof (intro conjI impI)
  have "length (decode d V L N s) \<le> min N (L - s)" by (rule decode_length)
  then show "int (length (decode d V L N s)) \<le> min (int N) (max 0 (int L - int s))"
    by linarith
next
  assume "L \<le> s"
  then show "decode d V L N s = []" by (rule decode_past_end)
next
  assume "maxToken_at d V s = 0 \<or> maxToken_at d V s = 2"
  then show "decode d V L N s = []" by (rule decode_stop_first)
next
  assume h: "(k = 0 \<or> k = 2) \<and> k < min V 10000
        \<and> (\<forall>t<min V 10000. t \<noteq> k \<longrightarrow> f32_gt (logit d (s * V + k)) (logit d (s * V + t)))"
  then have "k < min V 10000"
    and "\<forall>t<min V 10000. t \<noteq> k \<longrightarrow> f32_gt (logit d (s * V + k)) (logit d (s * V + t))"
    by simp_all
  then have "maxToken_at d V s = k" by (rule maxToken_at_strict_max)
  with h have "maxToken_at d V s = 0 \<or> maxToken_at d V s = 2" by simp
  then show "decode d V L N s = []" by (rule decode_stop_first)
qed


lemma sample_selected:
  "maxToken_at sample_logits 4 0 = 1"
  "maxToken_at sample_logits 4 1 = 3"
  "maxToken_at sample_logits 4 2 = 2"
  by (simp_all add: sample_logits_def maxToken_at_def scan_next scan_done logit_def)

lemma sample_decode: "decode sample_logits 4 3 100 0 = [1, 3]"
  by code_simp

theorem decode_length_bounded_witness:
  "int (length (decode sample_logits 4 3 100 0)) \<le> min (int 100) (max 0 (int 3 - int 0))
   \<and> decode sample_logits 4 3 100 0 = [1, 3]
   \<and> (3::nat) \<le> 5
   \<and> decode sample_logits 4 3 100 5 = []
   \<and> maxToken_at sample_logits 4 2 = 2
   \<and> decode sample_logits 4 3 100 2 = []"
proof -
  have a: "int (length (decode sample_logits 4 3 100 0)) \<le> min (int 100) (max 0 (int 3 - int 0))"
    using decode_length_bounded [of sample_logits 4 3 100 0 2] by (rule conjunct1)
  have b: "decode sample_logits 4 3 100 5 = []"
    using decode_length_bounded [of sample_logits 4 3 100 5 2] by simp
  have c: "decode sample_logits 4 3 100 2 = []"
    using decode_length_bounded [of sample_logits 4 3 100 2 2] sample_selected(3) by blast
  from a b c sample_decode sample_selected(3) show ?thesis by simp
qed

text \<open>
  C6 as stated fails when the start position is beyond \<open>maxLength\<close>: from position 513
  the output is empty, and its length 0 is not in \<open>[0, min(100, 512 - 513)]\<close>.
\<close>

theorem decode_start_past_maxLength:
  "decode [] 4 512 100 513 = []
   \<and> \<not> int (length (decode [] 4 512 100 513)) \<le> min (int 100) (int 512 - int 513)"
  by (simp add: decode_def decode_loop_done)



subsection \<open>The model download\<close>

lemma downloadModel_cached:
  "downloadModel net (Some b) = \<lparr>outcome = Inr (), cache_after = Some b, requests = 0\<rparr>"
  by (simp add: downloadModel_def download_begin_def)

lemma downloadModel_success_caches:
  "outcome (downloadModel net file) = Inr () \<Longrightarrow> cache_after (downloadModel net file) \<noteq> None"
  by (auto simp add: downloadModel_def download_begin_def download_settle_def
      split: arrival.splits if_splits option.splits)

text \<open>
  C9. When a file exists at the cache path, \<open>downloadModel\<close> succeeds at once, sends no
  request and leaves the file as it is; hence after a call that succeeded, a second call
  succeeds and sends no request, whatever the network would answer.
\<close>

theorem cached_download_sends_nothing:
  "downloadModel net (Some b) = \<lparr>outcome = Inr (), cache_after = Some b, requests = 0\<rparr>
   \<and> (outcome (downloadModel net1 file) = Inr () \<longrightarrow>
        outcome (downloadModel net2 (cache_after (downloadModel net1 file))) = Inr ()
        \<and> requests (downloadModel net2 (cache_after (downloadModel net1 file))) = 0)"
proof (intro conjI impI)
  show "downloadModel net (Some b) = \<lparr>outcome = Inr (), cache_after = Some b, requests = 0\<rparr>"
    by (rule downloadModel_cached)
next
  assume "outcome (downloadModel net1 file) = Inr ()"
  then obtain b' where b': "cache_after (downloadModel net1 file) = Some b'"
    using downloadModel_success_caches by blast
  show "outcome (downloadModel net2 (cache_after (downloadModel net1 file))) = Inr ()"
    by (simp add: b' downloadModel_cached)
  show "requests (downloadModel net2 (cache_after (downloadModel net1 file))) = 0"
    by (simp add: b' downloadModel_cached)
qed

theorem cached_download_sends_nothing_witness:
  "outcome (downloadModel sample_network None) = Inr ()
   \<and> requests (downloadModel sample_network None) = 2
   \<and> cache_after (downloadModel sample_network None) = Some [1, 2, 3]
   \<and> outcome (downloadModel sample_network (cache_after (downloadModel sample_network None))) = Inr ()
   \<and> requests (downloadModel sample_network (cache_after (downloadModel sample_network None))) = 0"
  using cached_download_sends_nothing [of sample_network "[1, 2, 3]" sample_network None sample_network]
  by (simp add: sample_network_def downloadModel_def download_begin_def download_settle_def)

text \<open>
  C3 does not hold of the code. When the release URL answers with a redirect and the
  request to the new location emits \<open>error\<close>, the promise is rejected with that error
  and the file that the write stream created is still there, empty; the next call finds
  it and reports success without any request. The handler of the first request does
  unlink the file: after an error there, no file is left.
\<close>

theorem redirect_error_leaves_file:
  "downloadModel
     \<lparr>first_request = Arrives \<lparr>statusCode = 302, content = []\<rparr>, redirect_request = Fails err\<rparr>
     None
   = \<lparr>outcome = Inl err, cache_after = Some [], requests = 2\<rparr>
   \<and> downloadModel net (Some []) = \<lparr>outcome = Inr (), cache_after = Some [], requests = 0\<rparr>
   \<and> downloadModel \<lparr>first_request = Fails err, redirect_request = r\<rparr> None
   = \<lparr>outcome = Inl err, cache_after = None, requests = 1\<rparr>"
  by (simp add: downloadModel_def download_begin_def download_settle_def)

subsection \<open>The session getter\<close>

text \<open>
  C1 does not hold of the code. Two calls are made one after the other in a fresh
  process; the download ends; the continuations run in the order in which they were
  suspended. The first call clears \<open>modelLoading\<close> and starts constructing a session. The
  second call finds \<open>session\<close> still empty after its \<open>await\<close>, calls \<open>downloadModel\<close>
  again (which finds the file and sends nothing) and starts a second construction. The
  download ran once (\<open>sent = 2\<close>: the request to the release URL and the one to the
  location of its redirect), the construction ran twice, and the two calls return
  different instances.
\<close>

theorem two_callers_two_sessions:
  "run [Call 0, Call 1, Network 0 sample_network, Resume 0, Resume 1, Resume 1,
        Created 0 None, Resume 0, Created 1 None, Resume 1] (fresh 2)
   = Some \<lparr>session = Some 1, modelLoading = None,
            downloads = [Fulfilled, Fulfilled], creations = [Fulfilled, Fulfilled],
            cache = Some [1, 2, 3], sent = 2, calls = [Returned 0, Returned 1]\<rparr>"
  by (simp add: fresh_def step_def resume_def start_loading_def download_begin_def
      download_settle_def settled_of_def sample_network_def numeral_2_eq_2)


subsection \<open>The tokenizer and the answer composer\<close>

lemma split_ws_Nil: "split_ws [] = [[]]"
  by (subst split_ws.simps) simp

lemma split_ws_space:
  "is_space c \<Longrightarrow> split_ws (c # s) = [] # split_ws (dropWhile is_space s)"
  by (subst split_ws.simps) simp

lemma split_ws_word_end:
  assumes "\<forall>c\<in>set w. \<not> is_space c"
  shows "split_ws w = [w]"
proof -
  from assms have "takeWhile (\<lambda>c. \<not> is_space c) w = w" "dropWhile (\<lambda>c. \<not> is_space c) w = []"
    by simp_all
  then show ?thesis by (subst split_ws.simps) simp
qed

lemma split_ws_word_space:
  assumes "\<forall>c\<in>set w. \<not> is_space c" and "is_space c"
  shows "split_ws (w @ c # s) = w # split_ws (dropWhile is_space s)"
proof -
  from assms have "takeWhile (\<lambda>c. \<not> is_space c) (w @ c # s) = w"
    by (simp add: takeWhile_append2)
  moreover from assms have "dropWhile (\<lambda>c. \<not> is_space c) (w @ c # s) = c # s"
    by (simp add: dropWhile_append2)
  ultimately show ?thesis by (subst split_ws.simps) simp
qed

lemma words_Nil: "filter (\<lambda>w. w \<noteq> []) (split_ws []) = []"
  by (simp add: split_ws_Nil)

lemma words_dropWhile:
  "filter (\<lambda>w. w \<noteq> []) (split_ws (dropWhile is_space s)) = filter (\<lambda>w. w \<noteq> []) (split_ws s)"
proof (cases s)
  case Nil
  then show ?thesis by simp
next
  case (Cons c s')
  then show ?thesis by (cases "is_space c") (simp_all add: split_ws_space)
qed


lemma words_word_end:
  "w \<noteq> [] \<Longrightarrow> \<forall>c\<in>set w. \<not> is_space c \<Longrightarrow> filter (\<lambda>w. w \<noteq> []) (split_ws w) = [w]"
  by (simp add: split_ws_word_end)

lemma words_word_space:
  "w \<noteq> [] \<Longrightarrow> \<forall>c\<in>set w. \<not> is_space c \<Longrightarrow> is_space c \<Longrightarrow>
   filter (\<lambda>w. w \<noteq> []) (split_ws (w @ c # s)) = w # filter (\<lambda>w. w \<noteq> []) (split_ws s)"
  by (simp add: split_ws_word_space words_dropWhile)

lemma is_space_32: "is_space 32"
  by (simp add: is_space_def)

lemma words_join_sp:
  assumes "\<forall>w\<in>set ws. w \<noteq> [] \<and> (\<forall>c\<in>set w. \<not> is_space c)"
  shows "filter (\<lambda>w. w \<noteq> []) (split_ws (join_sp ws)) = ws"
  using assms
proof (induction ws rule: join_sp.induct)
  case 1
  show ?case by (simp add: words_Nil)
next
  case (2 w)
  then show ?case by (simp add: words_word_end)
next
  case (3 w v ws)
  then show ?case by (simp add: words_word_space is_space_32)
qed


lemma fold_reverse:
  "fold (\<lambda>(word, i) m. m(i \<mapsto> word)) v m0 = m0 ++ map_of (rev (map (\<lambda>(word, i). (i, word)) v))"
proof (induction v arbitrary: m0)
  case Nil
  show ?case by simp
next
  case (Cons x xs)
  obtain word i where x: "x = (word, i)" by (cases x)
  have "fold (\<lambda>(word, i) m. m(i \<mapsto> word)) (x # xs) m0
      = fold (\<lambda>(word, i) m. m(i \<mapsto> word)) xs (m0(i \<mapsto> word))"
    by (simp only: x fold_simps comp_apply case_prod_conv)
  also have "\<dots> = m0(i \<mapsto> word) ++ map_of (rev (map (\<lambda>(word, i). (i, word)) xs))"
    by (rule Cons.IH)
  also have "\<dots> = m0 ++ map_of (rev (map (\<lambda>(word, i). (i, word)) (x # xs)))"
    by (simp add: x)
  finally show ?case .
qed

lemma reverseVocab_map_of:
  "reverseVocab v = map_of (rev (map (\<lambda>(word, i). (i, word)) v))"
  by (simp add: reverseVocab_def fold_reverse)

lemma reverseVocab_unique:
  assumes "map_of v w = Some i" and "\<forall>(w', i')\<in>set v. i' = i \<longrightarrow> w' = w"
  shows "reverseVocab v i = Some w"
proof -
  let ?r = "rev (map (\<lambda>(word, i). (i, word)) v)"
  from assms(1) have "(w, i) \<in> set v" by (rule map_of_SomeD)
  then have "(i, w) \<in> set ?r" by force
  then have "i \<in> fst ` set ?r" by force
  then obtain w' where w': "map_of ?r i = Some w'"
    by (cases "map_of ?r i") (simp_all add: map_of_eq_None_iff)
  then have "(i, w') \<in> set ?r" by (rule map_of_SomeD)
  then have "(w', i) \<in> set v" by auto
  with assms(2) have "w' = w" by blast
  with w' show ?thesis by (simp add: reverseVocab_map_of)
qed

lemma word_char_not_space: "is_word_char c \<Longrightarrow> \<not> is_space c"
  by (auto simp add: is_word_char_def is_space_def)

lemma diacritic_not_space: "c \<in> set diacritics \<Longrightarrow> \<not> is_space c"
  by (auto simp add: diacritics_def is_space_def)

lemma plain_word_no_space: "plain_word w \<Longrightarrow> c \<in> set w \<Longrightarrow> \<not> is_space c"
  using word_char_not_space diacritic_not_space by (auto simp add: plain_word_def)

lemma plain_word_kept: "plain_word w \<Longrightarrow> c \<in> set w \<Longrightarrow> kept c"
  by (auto simp add: plain_word_def kept_def)

lemma plain_word_no_marker: "plain_word w \<Longrightarrow> w \<notin> set markers"
proof
  assume p: "plain_word w" and "w \<in> set markers"
  then have "60 \<in> set w" by (auto simp add: markers_def js_def)
  with p have "is_word_char 60 \<or> 60 \<in> set diacritics" by (simp add: plain_word_def)
  then show False by (simp add: is_word_char_def diacritics_def)
qed

lemma kept_32: "kept 32"
  by (simp add: kept_def is_space_32)

lemma filter_kept_plain: "plain_word w \<Longrightarrow> filter kept w = w"
  by (simp add: filter_id_conv plain_word_kept)

lemma filter_kept_join_sp:
  "\<forall>w\<in>set ws. plain_word w \<Longrightarrow> filter kept (join_sp ws) = join_sp ws"
proof (induction ws rule: join_sp.induct)
  case 1
  show ?case by simp
next
  case (2 w)
  then show ?case by (simp add: filter_kept_plain)
next
  case (3 w v ws)
  then show ?case by (simp add: filter_kept_plain kept_32)
qed

lemma trim_join_sp:
  assumes "\<forall>w\<in>set ws. plain_word w"
  shows "trim (join_sp ws) = join_sp ws"
proof (cases ws)
  case Nil
  then show ?thesis by (simp add: trim_def)
next
  case (Cons w ws')
  with assms have w: "plain_word w" by simp
  then obtain c cs where wc: "w = c # cs" by (cases w) (simp_all add: plain_word_def)
  with w have c: "\<not> is_space c" using plain_word_no_space by simp
  have hd: "\<exists>t. join_sp ws = c # t" using Cons wc by (cases ws') simp_all
  from assms have lst: "join_sp ws \<noteq> [] \<and> \<not> is_space (last (join_sp ws))"
    unfolding Cons
  proof (induction "w # ws'" arbitrary: w ws' rule: join_sp.induct)
    case (2 w)
    then have "plain_word w" by simp
    then show ?case using plain_word_no_space [of w "last w"] by (simp add: plain_word_def)
  next
    case (3 w v ws)
    then show ?case by simp
  qed
  from hd obtain t where t: "join_sp ws = c # t" by blast
  have "dropWhile is_space (join_sp ws) = join_sp ws" using t c by simp
  moreover have "dropWhile is_space (rev (join_sp ws)) = rev (join_sp ws)"
    using lst by (cases "join_sp ws" rule: rev_cases) simp_all
  ultimately show ?thesis by (simp add: trim_def)
qed

text \<open>
  C8, as the code has it. Let the lower-cased text be the words \<open>ls\<close> joined by single
  spaces, where every word of \<open>ls\<close> is not empty, is made of the characters the tokenizer
  keeps (\<open>[A-Za-z0-9_]\<close> and the fifteen letters, no punctuation), is a key of the
  vocabulary, and is the only word with its id. Then \<open>detokenize\<close> of \<open>tokenize\<close> of the
  text is \<open>ls\<close> joined by single spaces. (No such word is one of the four markers.)
\<close>

theorem round_trip_plain_words:
  assumes "lc input = join_sp ls"
    and "\<forall>w\<in>set ls. plain_word w"
    and "\<forall>w\<in>set ls. \<exists>i. map_of v w = Some i \<and> (\<forall>(w', i')\<in>set v. i' = i \<longrightarrow> w' = w)"
  shows "detokenize v (tokenize lc v input) = join_sp ls"
proof -
  have "\<forall>w\<in>set ls. w \<noteq> [] \<and> (\<forall>c\<in>set w. \<not> is_space c)"
    using assms(2) plain_word_no_space by (auto simp add: plain_word_def)
  then have "filter (\<lambda>w. w \<noteq> []) (split_ws (join_sp ls)) = ls"
    by (rule words_join_sp)
  then have words: "filter (\<lambda>w. w \<noteq> []) (split_ws (filter kept (lc input))) = ls"
    using assms(1,2) by (simp add: filter_kept_join_sp)
  have inv: "reverse_get v (vocab_get v w) = Some w" if "w \<in> set ls" for w
  proof -
    from that assms(3) obtain i where i: "map_of v w = Some i"
      and u: "\<forall>(w', i')\<in>set v. i' = i \<longrightarrow> w' = w" by blast
    then show ?thesis by (simp add: vocab_get_def reverse_get_def reverseVocab_unique)
  qed
  then have a: "map (reverse_get v) (map (vocab_get v) ls) = map Some ls"
    by (induction ls) simp_all
  have b: "filter (\<lambda>w. case w of None \<Rightarrow> False | Some s \<Rightarrow> s \<noteq> [] \<and> s \<notin> set markers)
      (map Some ls) = map Some ls"
    using assms(2) plain_word_no_marker by (induction ls) (simp_all add: plain_word_def)
  have c: "map the (map Some ls) = ls" by (induction ls) simp_all
  have "detokenize v (tokenize lc v input) = trim (join_sp ls)"
    unfolding detokenize_def tokenize_def Let_def words a b c ..
  with assms(2) show ?thesis by (simp add: trim_join_sp)
qed

theorem round_trip_plain_words_witness:
  "toLowerCase_basic (js ''Ahoj '' @ [344, 69, 75, 65]) = join_sp [js ''ahoj'', [345, 101, 107, 97]]
   \<and> plain_word (js ''ahoj'') \<and> plain_word [345, 101, 107, 97]
   \<and> detokenize [(js ''ahoj'', 3::int), ([345, 101, 107, 97], 4), (js ''<unk>'', 0)]
        (tokenize toLowerCase_basic [(js ''ahoj'', 3::int), ([345, 101, 107, 97], 4), (js ''<unk>'', 0)]
           (js ''Ahoj '' @ [344, 69, 75, 65]))
      = js ''ahoj '' @ [345, 101, 107, 97]"
proof -
  have h1: "toLowerCase_basic (js ''Ahoj '' @ [344, 69, 75, 65])
      = join_sp [js ''ahoj'', [345, 101, 107, 97]]"
    by (simp add: toLowerCase_basic_def js_def lower_unit_def)
  have p: "plain_word (js ''ahoj'')" "plain_word [345, 101, 107, 97]"
    by (simp_all add: plain_word_def js_def is_word_char_def diacritics_def)
  then have h2: "\<forall>w\<in>set [js ''ahoj'', [345, 101, 107, 97]]. plain_word w" by simp
  have h3: "\<forall>w\<in>set [js ''ahoj'', [345, 101, 107, 97]].
      \<exists>i. map_of [(js ''ahoj'', 3::int), ([345, 101, 107, 97], 4), (js ''<unk>'', 0)] w = Some i
        \<and> (\<forall>(w', i')\<in>set [(js ''ahoj'', 3::int), ([345, 101, 107, 97], 4), (js ''<unk>'', 0)].
              i' = i \<longrightarrow> w' = w)"
    by (simp add: js_def)
  from round_trip_plain_words
    [where lc = toLowerCase_basic and input = "js ''Ahoj '' @ [344, 69, 75, 65]", OF h1 h2 h3]
  have "detokenize [(js ''ahoj'', 3), ([345, 101, 107, 97], 4), (js ''<unk>'', 0)]
        (tokenize toLowerCase_basic [(js ''ahoj'', 3), ([345, 101, 107, 97], 4), (js ''<unk>'', 0)]
           (js ''Ahoj '' @ [344, 69, 75, 65]))
      = js ''ahoj '' @ [345, 101, 107, 97]"
    by (simp add: js_def)
  with h1 p show ?thesis by (intro conjI)
qed

text \<open>
  C8 as stated fails for a word with punctuation: \<open>e-mail\<close> is a key of the vocabulary,
  the only word with id 7, and no marker; the tokenizer strips the hyphen, finds no key
  \<open>email\<close> and emits 0, and the composed answer is empty.
\<close>

theorem punctuated_word_lost:
  "map_of sample_vocab (js ''e-mail'') = Some 7
   \<and> reverseVocab sample_vocab 7 = Some (js ''e-mail'')
   \<and> js ''e-mail'' \<notin> set markers
   \<and> toLowerCase_basic (join_sp [js ''e-mail'']) = join_sp [js ''e-mail'']
   \<and> detokenize sample_vocab (tokenize toLowerCase_basic sample_vocab (join_sp [js ''e-mail''])) = []
   \<and> join_sp [js ''e-mail''] \<noteq> []"
proof -
  have w: "filter (\<lambda>w. w \<noteq> []) (split_ws [101, 109, 97, 105, 108]) = [[101, 109, 97, 105, 108]]"
    by (rule words_word_end) (simp_all add: is_space_def)
  have t: "tokenize toLowerCase_basic sample_vocab (join_sp [js ''e-mail'']) = [Num 0]"
    by (simp add: tokenize_def toLowerCase_basic_def js_def lower_unit_def kept_def
        is_word_char_def is_space_def diacritics_def w vocab_get_def sample_vocab_def
        inherited_names_def)
  have r: "reverseVocab sample_vocab 0 = None" "reverseVocab sample_vocab 7 = Some (js ''e-mail'')"
    by (simp_all add: reverseVocab_def sample_vocab_def)
  have d: "detokenize sample_vocab (tokenize toLowerCase_basic sample_vocab (join_sp [js ''e-mail''])) = []"
    unfolding t by (simp add: r detokenize_def reverse_get_def trim_def)
  have m: "map_of sample_vocab (js ''e-mail'') = Some 7"
    by (simp add: sample_vocab_def js_def)
  have k: "js ''e-mail'' \<notin> set markers" by (simp add: markers_def js_def)
  have l: "toLowerCase_basic (join_sp [js ''e-mail'']) = join_sp [js ''e-mail'']"
    by (simp add: js_def toLowerCase_basic_def lower_unit_def)
  have n: "join_sp [js ''e-mail''] \<noteq> []" by (simp add: js_def)
  from m r(2) k l d n show ?thesis by (intro conjI)
qed

subsection \<open>The POST handler\<close>

lemma infer_status: "status (infer e q) = 200 \<or> status (infer e q) = 500"
  by (simp add: infer_def Let_def split: sum.splits)

lemma infer_not_400: "status (infer e q) \<noteq> 400"
  using infer_status [of e q] by auto

lemma nonempty_string_iff:
  "\<not> (falsy q \<or> not_string q) \<longleftrightarrow> (\<exists>s. q = Some (JString s) \<and> s \<noteq> [])"
  by (auto simp add: falsy_def not_string_def split: option.splits json.splits)

lemma question_of_not_null: "j \<noteq> JNull \<Longrightarrow> \<exists>q. question_of j = Inr q"
  by (cases j) (simp_all add: question_of_def)

lemma POST_valid:
  assumes "body e = Inr j" and "question_of j = Inr (Some (JString s))" and "s \<noteq> []"
  shows "POST e = infer e s"
  using assms by (simp add: POST_def falsy_def not_string_def string_of_def)

lemma POST_invalid:
  assumes "body e = Inr j" and "question_of j = Inr q"
    and "\<forall>s. q = Some (JString s) \<longrightarrow> s = []"
  shows "POST e = Response 400 (ErrorOnly required_message)"
proof -
  from assms(3) have "falsy q \<or> not_string q" using nonempty_string_iff [of q] by blast
  with assms(1,2) show ?thesis by (simp add: POST_def)
qed





lemma long_question_nonempty: "long_question \<noteq> []"
  by (simp add: long_question_def js_def)

text \<open>
  C4, as the code has it. For a body that parses to a value other than \<open>null\<close>, the
  handler answers 400 exactly when the \<open>question\<close> read from it is not a string that is
  not empty (it is missing, or no string, or the empty string), and the 400 carries the
  error message; for a string that is not empty it goes on to the inference. A body
  that is \<open>null\<close>, or that does not parse, is answered with 500.
\<close>

theorem bad_request_iff:
  "(body e = Inr j \<and> j \<noteq> JNull \<longrightarrow>
      (status (POST e) = 400 \<longleftrightarrow> (\<forall>s. question_of j = Inr (Some (JString s)) \<longrightarrow> s = []))
      \<and> (status (POST e) = 400 \<longrightarrow> POST e = Response 400 (ErrorOnly required_message))
      \<and> (\<forall>s. question_of j = Inr (Some (JString s)) \<and> s \<noteq> [] \<longrightarrow> POST e = infer e s))
   \<and> (body e = Inr JNull \<longrightarrow> POST e = Response 500 (Failure NullDestructured))
   \<and> (body e = Inl err \<longrightarrow> POST e = Response 500 (Failure err))"
proof (intro conjI impI allI)
  assume a: "body e = Inr j \<and> j \<noteq> JNull"
  then obtain q where q: "question_of j = Inr q" using question_of_not_null by blast
  show "status (POST e) = 400 \<longleftrightarrow> (\<forall>s. question_of j = Inr (Some (JString s)) \<longrightarrow> s = [])"
  proof (cases "\<exists>s. q = Some (JString s) \<and> s \<noteq> []")
    case True
    then obtain s where s: "q = Some (JString s)" "s \<noteq> []" by blast
    with a q have "POST e = infer e s" by (simp add: POST_valid)
    with s q show ?thesis by (auto simp add: infer_not_400)
  next
    case False
    with a q have "POST e = Response 400 (ErrorOnly required_message)"
      by (intro POST_invalid [of e j q]) auto
    with False q show ?thesis by auto
  qed
next
  assume a: "body e = Inr j \<and> j \<noteq> JNull" and st: "status (POST e) = 400"
  then obtain q where q: "question_of j = Inr q" using question_of_not_null by blast
  show "POST e = Response 400 (ErrorOnly required_message)"
  proof (cases "\<exists>s. q = Some (JString s) \<and> s \<noteq> []")
    case True
    then obtain s where s: "q = Some (JString s)" "s \<noteq> []" by blast
    with a q have "POST e = infer e s" by (simp add: POST_valid)
    with st show ?thesis by (simp add: infer_not_400)
  next
    case False
    with a q show ?thesis by (intro POST_invalid [of e j q]) auto
  qed
next
  fix s
  assume "body e = Inr j \<and> j \<noteq> JNull" and "question_of j = Inr (Some (JString s)) \<and> s \<noteq> []"
  then show "POST e = infer e s" by (simp add: POST_valid)
next
  assume "body e = Inr JNull"
  then show "POST e = Response 500 (Failure NullDestructured)"
    by (simp add: POST_def question_of_def)
next
  assume "body e = Inl err"
  then show "POST e = Response 500 (Failure err)" by (simp add: POST_def)
qed

theorem bad_request_iff_witness:
  "body (sample_env\<lparr>body := Inr (JObject [])\<rparr>) = Inr (JObject [])
   \<and> JObject [] \<noteq> JNull
   \<and> POST (sample_env\<lparr>body := Inr (JObject [])\<rparr>) = Response 400 (ErrorOnly required_message)
   \<and> POST (sample_env\<lparr>body := Inr (JObject [(js ''question'', JNumber 5)])\<rparr>)
       = Response 400 (ErrorOnly required_message)
   \<and> long_question \<noteq> []
   \<and> POST sample_env = infer sample_env long_question
   \<and> POST (sample_env\<lparr>body := Inr JNull\<rparr>) = Response 500 (Failure NullDestructured)"
  using bad_request_iff [of "sample_env\<lparr>body := Inr (JObject [])\<rparr>" "JObject []"]
    bad_request_iff [of "sample_env\<lparr>body := Inr (JObject [(js ''question'', JNumber 5)])\<rparr>"
      "JObject [(js ''question'', JNumber 5)]"]
    bad_request_iff [of sample_env "JObject [(js ''question'', JString long_question)]"]
    bad_request_iff [of "sample_env\<lparr>body := Inr JNull\<rparr>" JNull]
    long_question_nonempty
  by (simp add: question_of_def sample_env_def)

text \<open>
  C4 as stated fails for the empty string: the field is there and it is a string, and
  the handler answers 400.
\<close>

theorem empty_question_rejected:
  "question_of (JObject [(js ''question'', JString [])]) = Inr (Some (JString []))
   \<and> POST (sample_env\<lparr>body := Inr (JObject [(js ''question'', JString [])])\<rparr>)
     = Response 400 (ErrorOnly required_message)"
  by (simp add: POST_def question_of_def falsy_def not_string_def)









end
